theory Spec2Isabelle
  imports Complex_Main "HOL-Library.Multiset"
begin

section \<open>Strings\<close>

text \<open>
  JavaScript strings are modelled as \<^typ>\<open>string\<close>, one \<^typ>\<open>char\<close> per code unit, and the text
  is taken to be ASCII: the case mappings act on the letters A to Z and a to z, and the
  white space of \<open>trim\<close> and of the regular expression class \<open>\s\<close> is its ASCII part
  (tab, line feed, vertical tab, form feed, carriage return, space).
  Coordinates are JavaScript numbers; they are modelled as \<^typ>\<open>real\<close>, so the rounding of
  double arithmetic is not part of the model.
\<close>

definition isSpace :: "char \<Rightarrow> bool" where
  "isSpace c = (c = CHR 0x09 \<or> c = CHR 0x0A \<or> c = CHR 0x0B \<or> c = CHR 0x0C \<or> c = CHR 0x0D
     \<or> c = CHR '' '')"

definition trim :: "string \<Rightarrow> string" where
  "trim s = rev (dropWhile isSpace (rev (dropWhile isSpace s)))"

definition isUpper :: "char \<Rightarrow> bool" where
  "isUpper c = (65 \<le> (of_char c :: nat) \<and> (of_char c :: nat) \<le> 90)"

definition isLower :: "char \<Rightarrow> bool" where
  "isLower c = (97 \<le> (of_char c :: nat) \<and> (of_char c :: nat) \<le> 122)"

definition isDigit :: "char \<Rightarrow> bool" where
  "isDigit c = (48 \<le> (of_char c :: nat) \<and> (of_char c :: nat) \<le> 57)"

definition toLowerCase :: "string \<Rightarrow> string" where
  "toLowerCase s = map (\<lambda>c. if isUpper c then char_of ((of_char c :: nat) + 32) else c) s"

definition toUpperCase :: "string \<Rightarrow> string" where
  "toUpperCase s = map (\<lambda>c. if isLower c then char_of ((of_char c :: nat) - 32) else c) s"

definition startsWith :: "string \<Rightarrow> string \<Rightarrow> bool" where
  "startsWith s w = (take (length w) s = w)"

fun includes_str :: "string \<Rightarrow> string \<Rightarrow> bool" where
  "includes_str [] w = (w = [])"
| "includes_str (c # s) w = (startsWith (c # s) w \<or> includes_str s w)"

text \<open>
  \<open>line.replace(key, r)\<close> with a string pattern replaces the first occurrence only. (The
  replacement patterns that JavaScript reads in \<open>r\<close> start with a dollar sign, which the
  styled keys of the program do not contain.)
\<close>

fun replace :: "string \<Rightarrow> string \<Rightarrow> string \<Rightarrow> string" where
  "replace [] key r = (if key = [] then r else [])"
| "replace (c # s) key r =
     (if startsWith (c # s) key then r @ drop (length key) (c # s) else c # replace s key r)"

fun join :: "string \<Rightarrow> string list \<Rightarrow> string" where
  "join sep [] = []"
| "join sep [s] = s"
| "join sep (s # t # ss) = s @ sep @ join sep (t # ss)"

section \<open>The styling layer\<close>

text \<open>
  The styles of the chalk library are an external collaborator: each style used by the
  program is a function from strings to strings, and the program is modelled for any
  such functions.
\<close>

record chalk =
  bold :: "string \<Rightarrow> string"
  gray :: "string \<Rightarrow> string"
  white :: "string \<Rightarrow> string"
  gray_italic :: "string \<Rightarrow> string"
  magenta_bold :: "string \<Rightarrow> string"
  blue_underline :: "string \<Rightarrow> string"
  cyan_bold_underline :: "string \<Rightarrow> string"
  yellow_bold_underline :: "string \<Rightarrow> string"

text \<open>One concrete styling, with ANSI escape sequences around the text, for evaluation.\<close>

definition sgr :: "string \<Rightarrow> string \<Rightarrow> string \<Rightarrow> string" where
  "sgr opn cls s = [CHR 0x1B] @ ''['' @ opn @ ''m'' @ s @ [CHR 0x1B] @ ''['' @ cls @ ''m''"

definition ansi :: chalk where
  "ansi = \<lparr> bold = sgr ''1'' ''22'',
            gray = sgr ''90'' ''39'',
            white = sgr ''37'' ''39'',
            gray_italic = (\<lambda>s. sgr ''90'' ''39'' (sgr ''3'' ''23'' s)),
            magenta_bold = (\<lambda>s. sgr ''35'' ''39'' (sgr ''1'' ''22'' s)),
            blue_underline = (\<lambda>s. sgr ''34'' ''39'' (sgr ''4'' ''24'' s)),
            cyan_bold_underline = (\<lambda>s. sgr ''36'' ''39'' (sgr ''1'' ''22'' (sgr ''4'' ''24'' s))),
            yellow_bold_underline =
              (\<lambda>s. sgr ''33'' ''39'' (sgr ''1'' ''22'' (sgr ''4'' ''24'' s))) \<rparr>"

section \<open>Utilities of the program\<close>

definition isBold :: "string \<Rightarrow> bool" where
  "isBold fontName =
     (let f = toLowerCase fontName
      in includes_str f ''bold'' \<or> includes_str f ''medium'' \<or> includes_str f ''semibold''
         \<or> includes_str f ''heavy'')"

definition sectionKeywords :: "string list" where
  "sectionKeywords = [''education'', ''experience'', ''projects'', ''skills'', ''certifications'']"

definition isSectionHeader :: "string \<Rightarrow> bool" where
  "isSectionHeader text = list_ex (\<lambda>word. startsWith (toLowerCase text) word) sectionKeywords"

definition titleChar :: "char \<Rightarrow> bool" where
  "titleChar c = (isUpper c \<or> isDigit c \<or> isSpace c \<or> c = CHR ''-'' \<or> c = CHR ''(''
     \<or> c = CHR '')'' \<or> c = CHR '':'')"

definition isProjectTitle :: "string \<Rightarrow> bool" where
  "isProjectTitle text = (text \<noteq> [] \<and> list_all titleChar text \<and> length text > 5)"

definition isGithubLink :: "string \<Rightarrow> bool" where
  "isGithubLink text = includes_str text ''github.com''"

definition skillCategories :: "string list" where
  "skillCategories = [''Programming Languages:'', ''Frameworks/Libraries:'', ''Tools:'',
     ''Cloud/DevOps:'', ''Technological Concepts:'', ''Soft Skills:'']"

fun highlightKeys :: "chalk \<Rightarrow> string list \<Rightarrow> string \<Rightarrow> string" where
  "highlightKeys ch [] line = line"
| "highlightKeys ch (key # keys) line =
     (if includes_str line key
      then replace line key (magenta_bold ch (replace key '':'' []) @ white ch '':'')
      else highlightKeys ch keys line)"

definition highlightSkillKey :: "chalk \<Rightarrow> string \<Rightarrow> string" where
  "highlightSkillKey ch line = highlightKeys ch skillCategories line"

definition makeHyperlink :: "string \<Rightarrow> string \<Rightarrow> string" where
  "makeHyperlink text u =
     [CHR 0x1B] @ '']8;;'' @ u @ [CHR 0x07] @ text @ [CHR 0x1B] @ '']8;;'' @ [CHR 0x07]"

section \<open>Tokens and the line formatter\<close>

text \<open>
  An entry of a line: the display string \<open>str\<close> (wrapped as a hyperlink when the token is
  linked), the trimmed text \<open>raw\<close>, the origin \<open>x\<close>, \<open>y\<close> and the font name.
\<close>

record item =
  str :: string
  raw :: string
  xpos :: real
  ypos :: real
  fontName :: string

record fmt =
  out_text :: string
  lastX :: real

definition format_item :: "chalk \<Rightarrow> fmt \<Rightarrow> item \<Rightarrow> fmt" where
  "format_item ch st it =
     (let gap = xpos it - lastX st;
          out_text1 = (if gap > 10 then out_text st @ [CHR 0x09]
                     else if gap > 5 then out_text st @ '' ''
                     else out_text st);
          text = (if isBold (fontName it) then bold ch (str it) else str it)
      in \<lparr> out_text = out_text1 @ text, lastX = xpos it + real (length (str it)) * 5 \<rparr>)"

text \<open>
  \<open>Array.prototype.sort\<close> is stable and sorts the array in place: the function returns the
  formatted string together with the new contents of the array it was given.
\<close>

definition formatLineWithSpacing :: "chalk \<Rightarrow> item list \<Rightarrow> string \<times> item list" where
  "formatLineWithSpacing ch lineItems =
     (let sorted = sort_key xpos lineItems;
          st = foldl (format_item ch) \<lparr> out_text = [], lastX = 0 \<rparr> sorted
      in (trim (out_text st), sorted))"

section \<open>Page content: ingestion, link overlay and line grouping\<close>

text \<open>
  What the content API gives for a page: the text fragments (string, the translation
  part \<open>transform[4]\<close>, \<open>transform[5]\<close> of the transform, an optional font name) and the
  annotations (optional url, optional rectangle \<open>[x1, y1, x2, y2]\<close>).
\<close>

record textItem =
  item_str :: string
  item_x :: real
  item_y :: real
  item_fontName :: "string option"

record annotation =
  url :: "string option"
  rect :: "(real \<times> real \<times> real \<times> real) option"

record page =
  items :: "textItem list"
  annotations :: "annotation list"

record link =
  link_url :: string
  link_rect :: "real \<times> real \<times> real \<times> real"

text \<open>\<open>annotations.filter((ann) => ann.url && ann.rect).map(...)\<close>: an empty url is falsy.\<close>

fun usable_links :: "annotation list \<Rightarrow> link list" where
  "usable_links [] = []"
| "usable_links (ann # anns) =
     (case (url ann, rect ann) of
        (Some u, Some r) \<Rightarrow>
          (if u \<noteq> [] then \<lparr> link_url = u, link_rect = r \<rparr> # usable_links anns
           else usable_links anns)
      | _ \<Rightarrow> usable_links anns)"

definition in_rect :: "real \<Rightarrow> real \<Rightarrow> link \<Rightarrow> bool" where
  "in_rect x y l = (case link_rect l of (x1, y1, x2, y2) \<Rightarrow> x \<ge> x1 \<and> x \<le> x2 \<and> y \<ge> y1 \<and> y \<le> y2)"

definition find_link :: "link list \<Rightarrow> real \<Rightarrow> real \<Rightarrow> link option" where
  "find_link links x y = find (in_rect x y) links"

text \<open>The entry pushed on the current line for a fragment whose trimmed text is \<open>s\<close>.\<close>

definition make_item :: "chalk \<Rightarrow> link list \<Rightarrow> textItem \<Rightarrow> item" where
  "make_item ch links it =
     (let s = trim (item_str it);
          y = item_y it;
          x = item_x it;
          f = (case item_fontName it of None \<Rightarrow> [] | Some n \<Rightarrow> n)
      in \<lparr> str = (case find_link links x y of
                    Some l \<Rightarrow> makeHyperlink (blue_underline ch s) (link_url l)
                  | None \<Rightarrow> s),
           raw = s, xpos = x, ypos = y, fontName = f \<rparr>)"

record grouper =
  glines :: "item list list"
  currentLine :: "item list"
  lastY :: "real option"

definition close_line :: "grouper \<Rightarrow> grouper" where
  "close_line g =
     g\<lparr> glines := (if length (currentLine g) > 0 then glines g @ [currentLine g] else glines g),
        currentLine := [] \<rparr>"

definition new_row :: "real option \<Rightarrow> real \<Rightarrow> bool" where
  "new_row prev y = (case prev of None \<Rightarrow> True | Some ly \<Rightarrow> \<bar>y - ly\<bar> > 5)"

definition group_item :: "chalk \<Rightarrow> link list \<Rightarrow> grouper \<Rightarrow> textItem \<Rightarrow> grouper" where
  "group_item ch links g it =
     (if trim (item_str it) = [] then g
      else
        (let g1 = (if new_row (lastY g) (item_y it) then close_line g else g)
         in g1\<lparr> currentLine := currentLine g1 @ [make_item ch links it],
                lastY := Some (item_y it) \<rparr>))"

definition group_lines :: "chalk \<Rightarrow> link list \<Rightarrow> textItem list \<Rightarrow> item list list" where
  "group_lines ch links its =
     glines (close_line (foldl (group_item ch links)
       \<lparr> glines = [], currentLine = [], lastY = None \<rparr> its))"

section \<open>The section classifier\<close>

text \<open>
  The variables of the classification loop: the array of lines (the formatter sorts the
  line it is given in place), the three section flags, the index of the last project
  title, the education buffer, and the console, one string per call of \<open>console.log\<close>
  (the empty string for a call with no argument).
\<close>

record cstate =
  lines :: "item list list"
  inProjects :: bool
  inExperience :: bool
  inEducation :: bool
  lastProjectIndex :: int
  eduBuffer :: "string list"
  console :: "string list"

text \<open>The branch of the loop body that handles a line.\<close>

datatype branch =
  Skip | SectionHeader | Education | ExperienceTitle | ExperienceLine | ProjectTitle
  | GithubLink | TechStack | Skills | Verify | Default

definition rawLineOf :: "item list \<Rightarrow> string" where
  "rawLineOf lineItems = trim (join '' '' (map raw lineItems))"

definition techStackChar :: "char \<Rightarrow> bool" where
  "techStackChar c = (isUpper c \<or> isLower c \<or> c = CHR '','' \<or> isSpace c)"

definition isTechStack :: "string \<Rightarrow> bool" where
  "isTechStack rawLine = (rawLine \<noteq> [] \<and> list_all techStackChar rawLine \<and> length rawLine < 100)"

definition branch_of :: "cstate \<Rightarrow> nat \<Rightarrow> branch" where
  "branch_of st i =
     (let rawLine = rawLineOf (lines st ! i);
          lineItems = sort_key xpos (lines st ! i)
      in if rawLine = [] then Skip
         else if isSectionHeader rawLine then SectionHeader
         else if inEducation st then Education
         else if inExperience st then
           (if isBold (case lineItems of [] \<Rightarrow> [] | it # _ \<Rightarrow> fontName it)
               \<and> length lineItems = 1 \<and> length rawLine < 40
            then ExperienceTitle else ExperienceLine)
         else if inProjects st \<and> isProjectTitle rawLine \<and> int i - lastProjectIndex st > 1
           then ProjectTitle
         else if inProjects st \<and> isGithubLink rawLine then GithubLink
         else if inProjects st \<and> isTechStack rawLine then TechStack
         else if \<not> inProjects st \<and> list_ex (\<lambda>key. includes_str rawLine key) skillCategories
           then Skills
         else if includes_str (toLowerCase rawLine) ''verify'' then Verify
         else Default)"

definition console_log :: "string list \<Rightarrow> cstate \<Rightarrow> cstate" where
  "console_log ss st = st\<lparr> console := console st @ ss \<rparr>"

definition line_step :: "chalk \<Rightarrow> cstate \<Rightarrow> nat \<Rightarrow> cstate" where
  "line_step ch st i =
     (let rawLine = rawLineOf (lines st ! i);
          (formattedLine, sorted) = formatLineWithSpacing ch (lines st ! i);
          st1 = st\<lparr> lines := (lines st)[i := sorted] \<rparr>
      in case branch_of st i of
           Skip \<Rightarrow> st1
         | SectionHeader \<Rightarrow>
             console_log [[CHR 0x0A] @ yellow_bold_underline ch (toUpperCase rawLine)]
               (st1\<lparr> inProjects := includes_str (toLowerCase rawLine) ''project'',
                     inExperience := includes_str (toLowerCase rawLine) ''experience'',
                     inEducation := includes_str (toLowerCase rawLine) ''education'',
                     eduBuffer := [] \<rparr>)
         | Education \<Rightarrow>
             (let buf = eduBuffer st1 @ [formattedLine]
              in if length buf = 2
                 then console_log [bold ch (trim (buf ! 0)) @ [CHR 0x0A]
                           @ gray ch ([CHR 0x09] @ trim (buf ! 1)) @ [CHR 0x0A]]
                        (st1\<lparr> eduBuffer := [] \<rparr>)
                 else st1\<lparr> eduBuffer := buf \<rparr>)
         | ExperienceTitle \<Rightarrow> console_log [[CHR 0x0A] @ cyan_bold_underline ch rawLine] st1
         | ExperienceLine \<Rightarrow> console_log [formattedLine] st1
         | ProjectTitle \<Rightarrow>
             console_log [[], cyan_bold_underline ch formattedLine] (st1\<lparr> lastProjectIndex := int i \<rparr>)
         | GithubLink \<Rightarrow> console_log [formattedLine] st1
         | TechStack \<Rightarrow> console_log [gray_italic ch formattedLine] st1
         | Skills \<Rightarrow> console_log [highlightSkillKey ch formattedLine] st1
         | Verify \<Rightarrow> console_log [formattedLine] st1
         | Default \<Rightarrow>
             console_log (formattedLine #
                  (if inProjects st1 \<and> i + 1 < length (lines st1)
                      \<and> isProjectTitle (rawLineOf (lines st1 ! (i + 1)))
                   then [[]] else []))
               st1)"

text \<open>The variables as each page declares them, before its first line.\<close>

definition page_init :: "item list list \<Rightarrow> string list \<Rightarrow> cstate" where
  "page_init ls con =
     \<lparr> lines = ls, inProjects = False, inExperience = False, inEducation = False,
       lastProjectIndex = - 2, eduBuffer = [], console = con \<rparr>"

text \<open>The state after the lines \<open>i, \<dots>, i + n - 1\<close>, and after all the lines of a page.\<close>

definition run_lines :: "chalk \<Rightarrow> cstate \<Rightarrow> nat \<Rightarrow> nat \<Rightarrow> cstate" where
  "run_lines ch st i n = foldl (line_step ch) st [i ..< i + n]"

definition classify :: "chalk \<Rightarrow> cstate \<Rightarrow> cstate" where
  "classify ch st = run_lines ch st 0 (length (lines st))"

section \<open>The document\<close>

definition page_lines :: "chalk \<Rightarrow> page \<Rightarrow> item list list" where
  "page_lines ch p = group_lines ch (usable_links (annotations p)) (items p)"

definition process_page :: "chalk \<Rightarrow> string list \<Rightarrow> page \<Rightarrow> string list" where
  "process_page ch con p = console (classify ch (page_init (page_lines ch p) con))"

definition extractFormattedText :: "chalk \<Rightarrow> page list \<Rightarrow> string list" where
  "extractFormattedText ch pages = foldl (process_page ch) [] pages"

text \<open>The classifier's variables when page \<open>n\<close> (from 0) starts, and when it ends.\<close>

definition page_start_state :: "chalk \<Rightarrow> page list \<Rightarrow> nat \<Rightarrow> cstate" where
  "page_start_state ch pages n =
     page_init (page_lines ch (pages ! n)) (extractFormattedText ch (take n pages))"

definition page_end_state :: "chalk \<Rightarrow> page list \<Rightarrow> nat \<Rightarrow> cstate" where
  "page_end_state ch pages n = classify ch (page_start_state ch pages n)"

section \<open>Notions used in the statements\<close>

text \<open>The formatted string alone, and the string logged for a pair of education lines.\<close>

definition formattedLineOf :: "chalk \<Rightarrow> item list \<Rightarrow> string" where
  "formattedLineOf ch lineItems = fst (formatLineWithSpacing ch lineItems)"

definition edu_pair :: "chalk \<Rightarrow> string \<Rightarrow> string \<Rightarrow> string" where
  "edu_pair ch a b = bold ch (trim a) @ [CHR 0x0A] @ gray ch ([CHR 0x09] @ trim b) @ [CHR 0x0A]"

text \<open>The classifier's variables without the lines and the console.\<close>

definition classifier_vars :: "cstate \<Rightarrow> bool \<times> bool \<times> bool \<times> int \<times> string list" where
  "classifier_vars st =
     (inProjects st, inExperience st, inEducation st, lastProjectIndex st, eduBuffer st)"

definition with_console :: "string list \<Rightarrow> cstate \<Rightarrow> cstate" where
  "with_console con st = st\<lparr> console := con @ console st \<rparr>"

text \<open>
  A fragment survives ingestion when its trimmed text is not empty. A row is a run of
  fragments whose consecutive y-differences do not exceed 5; rows are well separated when
  each row is a non-empty row and the y-difference across every row boundary exceeds 5.
\<close>

definition kept :: "textItem \<Rightarrow> bool" where
  "kept it = (trim (item_str it) \<noteq> [])"

fun same_row :: "textItem list \<Rightarrow> bool" where
  "same_row (a # b # r) = (\<not> \<bar>item_y b - item_y a\<bar> > 5 \<and> same_row (b # r))"
| "same_row r = True"

fun rows_ok :: "textItem list list \<Rightarrow> bool" where
  "rows_ok [] = True"
| "rows_ok [r] = (r \<noteq> [] \<and> same_row r)"
| "rows_ok (r # r' # rs) =
     (r \<noteq> [] \<and> same_row r \<and> \<bar>item_y (hd r') - item_y (last r)\<bar> > 5 \<and> rows_ok (r' # rs))"

definition gathered :: "grouper \<Rightarrow> item list" where
  "gathered g = concat (glines g) @ currentLine g"






text \<open>The test of the experience branch, on the line as stored.\<close>

definition experience_title :: "item list \<Rightarrow> bool" where
  "experience_title l =
     (length l = 1 \<and> isBold (fontName (hd l)) \<and> length (rawLineOf l) < 40)"

text \<open>
  The lines \<open>i, \<dots>, i + n - 1\<close> are education lines of a state: the education flag is set,
  the buffer is empty (as a section header leaves it), and none of the lines is a header.
  \<open>edu_emitted\<close> is what is logged for them: one string per pair.
\<close>

definition edu_lines :: "cstate \<Rightarrow> nat \<Rightarrow> nat \<Rightarrow> bool" where
  "edu_lines st i n =
     (inEducation st \<and> eduBuffer st = [] \<and> i + n \<le> length (lines st)
      \<and> list_all (\<lambda>j. rawLineOf (lines st ! j) \<noteq> []
                        \<and> \<not> isSectionHeader (rawLineOf (lines st ! j))) [i ..< i + n])"

definition edu_emitted :: "chalk \<Rightarrow> cstate \<Rightarrow> nat \<Rightarrow> nat \<Rightarrow> string list" where
  "edu_emitted ch st i n =
     map (\<lambda>k. edu_pair ch (formattedLineOf ch (lines st ! (i + 2 * k)))
                          (formattedLineOf ch (lines st ! (i + 2 * k + 1)))) [0 ..< n div 2]"

definition good_item :: "item \<Rightarrow> bool" where
  "good_item t = (raw t \<noteq> [] \<and> trim (raw t) = raw t)"

section \<open>Sample inputs\<close>

definition frag :: "string \<Rightarrow> real \<Rightarrow> real \<Rightarrow> string \<Rightarrow> textItem" where
  "frag s x y f = \<lparr> item_str = s, item_x = x, item_y = y, item_fontName = Some f \<rparr>"

definition plain_item :: "string \<Rightarrow> real \<Rightarrow> real \<Rightarrow> string \<Rightarrow> item" where
  "plain_item s x y f = \<lparr> str = s, raw = s, xpos = x, ypos = y, fontName = f \<rparr>"

definition text_page :: "textItem list \<Rightarrow> page" where
  "text_page its = \<lparr> items = its, annotations = [] \<rparr>"

text \<open>A document of two pages; the education section of the first page is still open,
  with one buffered line, when the page ends.\<close>

definition two_pages :: "page list" where
  "two_pages =
     [text_page [frag ''EDUCATION'' 50 700 ''Arial'', frag ''MIT'' 50 680 ''Arial''],
      text_page [frag ''BSc'' 50 700 ''Arial'']]"

text \<open>A page whose header names two sections.\<close>

definition double_header_page :: page where
  "double_header_page = text_page [frag ''Education and Experience'' 50 700 ''Arial-Bold'']"

text \<open>Scenario A: the header EXPERIENCE, then a single bold token under 40 characters.\<close>

definition experience_lines :: "item list list" where
  "experience_lines =
     [[plain_item ''EXPERIENCE'' 50 700 ''Arial''],
      [plain_item ''Senior Engineer'' 50 680 ''Helvetica-Bold'']]"

text \<open>Two rows and a blank fragment; the second fragment of the first row is 2 units lower.\<close>

definition sample_fragments :: "textItem list" where
  "sample_fragments =
     [frag ''Hello'' 50 700 ''Arial'', frag '' World '' 90 698 ''Arial'',
      frag ''   '' 10 650 ''Arial'', frag ''Next'' 50 680 ''Arial'']"

definition sample_rows :: "textItem list list" where
  "sample_rows =
     [[frag ''Hello'' 50 700 ''Arial'', frag '' World '' 90 698 ''Arial''],
      [frag ''Next'' 50 680 ''Arial'']]"

text \<open>Two overlapping link rectangles; the point (100, 50) is on the boundary of both.\<close>

definition sample_links :: "link list" where
  "sample_links =
     [\<lparr> link_url = ''https://a.example'', link_rect = (0, 0, 100, 100) \<rparr>,
      \<lparr> link_url = ''https://b.example'', link_rect = (100, 50, 200, 150) \<rparr>]"

text \<open>An education section with three lines, closed by the next header.\<close>

definition education_lines :: "item list list" where
  "education_lines =
     [[plain_item ''EDUCATION'' 50 700 ''Arial''],
      [plain_item ''MIT'' 50 680 ''Arial''],
      [plain_item ''BSc'' 50 660 ''Arial''],
      [plain_item ''Stanford'' 50 640 ''Arial''],
      [plain_item ''SKILLS'' 50 620 ''Arial'']]"

text \<open>A line stored in discovery order, right token first.\<close>

definition unsorted_line :: "item list" where
  "unsorted_line = [plain_item ''b'' 30 700 ''Arial-Bold'', plain_item ''a'' 8 700 ''Arial'']"

text \<open>Projects sections in which two consecutive lines match the title pattern.\<close>

definition project_lines :: "item list list" where
  "project_lines =
     [[plain_item ''PROJECTS'' 50 700 ''Arial''],
      [plain_item ''ALPHA BETA'' 50 680 ''Arial''],
      [plain_item ''GAMMA DELTA'' 50 660 ''Arial'']]"

definition project_lines2 :: "item list list" where
  "project_lines2 =
     [[plain_item ''PROJECTS'' 50 700 ''Arial''],
      [plain_item ''ALPHA-1 (X)'' 50 680 ''Arial''],
      [plain_item ''BETA-2: YY'' 50 660 ''Arial'']]"



text \<open>A page with a blank fragment before its only text.\<close>

definition blank_first_page :: page where
  "blank_first_page = text_page [frag ''  '' 10 700 ''Arial'', frag ''Hello'' 50 700 ''Arial'']"

text \<open>The state after the first line of a page with the given lines.\<close>

definition after_header :: "item list list \<Rightarrow> cstate" where
  "after_header ls = line_step ansi (page_init ls []) 0"

definition project_page :: page where
  "project_page =
     text_page [frag ''PROJECTS'' 50 700 ''Arial'', frag ''ALPHA BETA'' 50 680 ''Arial'',
                frag ''GAMMA DELTA'' 50 660 ''Arial'']"

section \<open>Strings: trimming and containment\<close>

lemma trim_Nil_iff: "trim s = [] \<longleftrightarrow> (\<forall>c\<in>set s. isSpace c)"
proof (cases "dropWhile isSpace s = []")
  case True
  have "trim s = []" unfolding trim_def True by simp
  moreover have "\<forall>c\<in>set s. isSpace c" using True by simp
  ultimately show ?thesis by blast
next
  case False
  then have "\<not> isSpace (hd (dropWhile isSpace s))" by (rule hd_dropWhile)
  moreover have "hd (dropWhile isSpace s) \<in> set (dropWhile isSpace s)"
    using False by simp
  ultimately have ex: "\<exists>c\<in>set (dropWhile isSpace s). \<not> isSpace c" by blast
  have 1: "\<exists>c\<in>set s. \<not> isSpace c" using ex by (blast dest: set_dropWhileD)
  have 2: "trim s \<noteq> []" using ex by (simp add: trim_def)
  show ?thesis using 1 2 by blast
qed

lemma trim_hd: "trim s \<noteq> [] \<Longrightarrow> \<not> isSpace (hd (trim s))"
proof -
  assume ne: "trim s \<noteq> []"
  let ?d = "dropWhile isSpace s"
  have dne: "?d \<noteq> []" using ne by (auto simp: trim_def simp del: dropWhile_eq_Nil_conv)
  have h: "\<not> isSpace (hd ?d)" using dne by (rule hd_dropWhile)
  obtain c cs where d: "?d = c # cs" using dne by (cases ?d) auto
  have c: "\<not> isSpace c" using h d by simp
  have "trim s = rev (dropWhile isSpace (rev cs @ [c]))" by (simp add: trim_def d)
  also have "\<dots> = rev (dropWhile isSpace (rev cs) @ [c])"
    using c by (simp add: dropWhile_append)
  finally show ?thesis using c by simp
qed

lemma trim_last: "trim s \<noteq> [] \<Longrightarrow> \<not> isSpace (last (trim s))"
proof -
  assume ne: "trim s \<noteq> []"
  let ?e = "dropWhile isSpace (rev (dropWhile isSpace s))"
  have ene: "?e \<noteq> []" using ne by (simp add: trim_def)
  have "\<not> isSpace (hd ?e)" using ene by (rule hd_dropWhile)
  then show ?thesis using ene by (simp add: trim_def last_rev)
qed

lemma dropWhile_id: "s \<noteq> [] \<Longrightarrow> \<not> P (hd s) \<Longrightarrow> dropWhile P s = s"
  by (cases s) auto

lemma trim_fixed: "s \<noteq> [] \<Longrightarrow> \<not> isSpace (hd s) \<Longrightarrow> \<not> isSpace (last s) \<Longrightarrow> trim s = s"
proof -
  assume a: "s \<noteq> []" "\<not> isSpace (hd s)" "\<not> isSpace (last s)"
  have 1: "dropWhile isSpace s = s" using a by (simp add: dropWhile_id)
  have "rev s \<noteq> []" "hd (rev s) = last s" using a by (simp_all add: hd_rev)
  then have 2: "dropWhile isSpace (rev s) = rev s" using a by (simp add: dropWhile_id)
  show ?thesis by (simp add: trim_def 1 2)
qed

lemma trim_idem: "trim (trim s) = trim s"
proof (cases "trim s = []")
  case True
  have "trim [] = []" by (simp add: trim_def)
  then show ?thesis using True by simp
next
  case False
  then show ?thesis by (intro trim_fixed trim_hd trim_last)
qed

lemma trim_not_newline: "trim s \<noteq> CHR 0x0A # r"
proof
  assume e: "trim s = CHR 0x0A # r"
  then have "\<not> isSpace (hd (trim s))" by (intro trim_hd) simp
  then show False using e by (simp add: isSpace_def)
qed

lemma startsWith_iff: "startsWith s w \<longleftrightarrow> (\<exists>post. s = w @ post)"
  unfolding startsWith_def
  by (metis append_eq_conv_conj append_take_drop_id)

lemma includes_str_iff: "includes_str s w \<longleftrightarrow> (\<exists>pre post. s = pre @ w @ post)"
proof (induction s)
  case Nil
  then show ?case by auto
next
  case (Cons c s)
  show ?case
  proof
    assume "includes_str (c # s) w"
    then consider "startsWith (c # s) w" | "includes_str s w" by auto
    then show "\<exists>pre post. c # s = pre @ w @ post"
    proof cases
      case 1
      then obtain post where "c # s = w @ post" by (auto simp: startsWith_iff)
      then have "c # s = [] @ w @ post" by simp
      then show ?thesis by blast
    next
      case 2
      then obtain pre post where "s = pre @ w @ post" using Cons.IH by blast
      then have "c # s = (c # pre) @ w @ post" by simp
      then show ?thesis by blast
    qed
  next
    assume "\<exists>pre post. c # s = pre @ w @ post"
    then obtain pre post where e: "c # s = pre @ w @ post" by blast
    show "includes_str (c # s) w"
    proof (cases pre)
      case Nil
      then have "startsWith (c # s) w" using e by (auto simp: startsWith_iff)
      then show ?thesis by simp
    next
      case (Cons d pre')
      then have "s = pre' @ w @ post" using e by simp
      then have "includes_str s w" using Cons.IH by blast
      then show ?thesis by simp
    qed
  qed
qed

lemma set_join: "s \<in> set ss \<Longrightarrow> set s \<subseteq> set (join sep ss)"
  by (induction sep ss rule: join.induct) auto

section \<open>Link overlay\<close>

text \<open>
  Claim C4. A token is linked exactly when some link rectangle of the page contains its
  origin under the inclusive test \<open>x1 \<le> x \<le> x2\<close> and \<open>y1 \<le> y \<le> y2\<close>; the link found is
  the first one in list order that contains the point, and its url is the one wrapped
  around the token's display string. A token outside every rectangle keeps its trimmed
  text.
\<close>

theorem link_overlay_first_match:
  "(find_link links x y \<noteq> None \<longleftrightarrow> (\<exists>l \<in> set links. in_rect x y l))
   \<and> (find_link links x y = Some l \<longleftrightarrow>
        (\<exists>i < length links. links ! i = l \<and> in_rect x y l
           \<and> (\<forall>j < i. \<not> in_rect x y (links ! j))))
   \<and> (in_rect x y \<lparr> link_url = u, link_rect = (x1, y1, x2, y2) \<rparr>
        \<longleftrightarrow> x1 \<le> x \<and> x \<le> x2 \<and> y1 \<le> y \<and> y \<le> y2)
   \<and> str (make_item ch links it) =
       (case find_link links (item_x it) (item_y it) of
          None \<Rightarrow> trim (item_str it)
        | Some k \<Rightarrow> makeHyperlink (blue_underline ch (trim (item_str it))) (link_url k))"
proof (intro conjI)
  show "find_link links x y \<noteq> None \<longleftrightarrow> (\<exists>l \<in> set links. in_rect x y l)"
    by (auto simp: find_link_def find_None_iff)
  show "find_link links x y = Some l \<longleftrightarrow>
        (\<exists>i < length links. links ! i = l \<and> in_rect x y l
           \<and> (\<forall>j < i. \<not> in_rect x y (links ! j)))"
    unfolding find_link_def find_Some_iff by auto
  show "in_rect x y \<lparr> link_url = u, link_rect = (x1, y1, x2, y2) \<rparr>
        \<longleftrightarrow> x1 \<le> x \<and> x \<le> x2 \<and> y1 \<le> y \<and> y \<le> y2"
    by (simp add: in_rect_def)
  show "str (make_item ch links it) =
       (case find_link links (item_x it) (item_y it) of
          None \<Rightarrow> trim (item_str it)
        | Some k \<Rightarrow> makeHyperlink (blue_underline ch (trim (item_str it))) (link_url k))"
    by (simp add: make_item_def Let_def split: option.split)
qed

theorem link_overlay_first_match_witness:
  "find_link sample_links 100 50 = Some (sample_links ! 0)
   \<and> in_rect 100 50 (sample_links ! 0) \<and> in_rect 100 50 (sample_links ! 1)
   \<and> str (make_item ansi sample_links (frag ''site'' 100 50 ''Arial''))
       = makeHyperlink (blue_underline ansi ''site'') ''https://a.example''
   \<and> str (make_item ansi sample_links (frag ''far'' 300 50 ''Arial'')) = ''far''"
proof -
  have r: "in_rect 100 50 (sample_links ! 0)" "in_rect 100 50 (sample_links ! 1)"
    by (simp_all add: sample_links_def in_rect_def)
  have "\<exists>i < length sample_links. sample_links ! i = sample_links ! 0
          \<and> in_rect 100 50 (sample_links ! 0) \<and> (\<forall>j < i. \<not> in_rect 100 50 (sample_links ! j))"
    using r by (intro exI[of _ 0]) (simp add: sample_links_def)
  then have f: "find_link sample_links 100 50 = Some (sample_links ! 0)"
    using link_overlay_first_match[of sample_links 100 50 "sample_links ! 0"] by blast
  have t: "trim ''site'' = ''site''" "trim ''far'' = ''far''" by code_simp+
  have n: "find_link sample_links 300 50 = None"
    using link_overlay_first_match[of sample_links 300 50]
    by (simp add: sample_links_def in_rect_def)
  have 1: "str (make_item ansi sample_links (frag ''site'' 100 50 ''Arial''))
       = makeHyperlink (blue_underline ansi ''site'') ''https://a.example''"
    using link_overlay_first_match[of sample_links 100 50 _ _ _ _ _ _ ansi
        "frag ''site'' 100 50 ''Arial''"] f
    by (simp add: frag_def t) (simp add: sample_links_def)
  have 2: "str (make_item ansi sample_links (frag ''far'' 300 50 ''Arial'')) = ''far''"
    using link_overlay_first_match[of sample_links 300 50 _ _ _ _ _ _ ansi
        "frag ''far'' 300 50 ''Arial''"] n
    by (simp add: frag_def t)
  show ?thesis using f r 1 2 by simp
qed

section \<open>Line formatter\<close>




lemma format_sorts: "snd (formatLineWithSpacing ch line) = sort_key xpos line"
  by (simp add: formatLineWithSpacing_def Let_def)





text \<open>
  Claim C9, as amended. Formatting sorts the array it is given: when
  \<open>formatLineWithSpacing\<close> returns, the stored line is the stable sort by ascending x of
  what it was before, with the same tokens; it is unchanged exactly when it was already
  in ascending x order. In the classification loop, the line at the current index is
  replaced by its sorted version and the other lines are untouched.
\<close>

theorem formatter_sorts_line_in_place:
  "snd (formatLineWithSpacing ch line) = sort_key xpos line
   \<and> mset (snd (formatLineWithSpacing ch line)) = mset line
   \<and> (snd (formatLineWithSpacing ch line) = line \<longleftrightarrow> sorted (map xpos line))
   \<and> lines (line_step ch st i) = (lines st)[i := sort_key xpos (lines st ! i)]"
proof (intro conjI)
  show "snd (formatLineWithSpacing ch line) = sort_key xpos line" by (rule format_sorts)
  show "mset (snd (formatLineWithSpacing ch line)) = mset line" by (simp add: format_sorts)
  show "snd (formatLineWithSpacing ch line) = line \<longleftrightarrow> sorted (map xpos line)"
    by (metis format_sorts sort_key_id_if_sorted sorted_sort_key)
  show "lines (line_step ch st i) = (lines st)[i := sort_key xpos (lines st ! i)]"
    by (simp add: line_step_def formatLineWithSpacing_def Let_def console_log_def
        split: branch.split)
qed

theorem formatter_sorts_line_in_place_witness:
  "snd (formatLineWithSpacing ansi unsorted_line)
     = [plain_item ''a'' 8 700 ''Arial'', plain_item ''b'' 30 700 ''Arial-Bold'']
   \<and> \<not> sorted (map xpos unsorted_line)"
proof -
  have "sort_key xpos unsorted_line
     = [plain_item ''a'' 8 700 ''Arial'', plain_item ''b'' 30 700 ''Arial-Bold'']"
    by (simp add: unsorted_line_def plain_item_def)
  moreover have "\<not> sorted (map xpos unsorted_line)"
    by (simp add: unsorted_line_def plain_item_def)
  ultimately show ?thesis
    using formatter_sorts_line_in_place[of ansi unsorted_line] by simp
qed

text \<open>
  Claim C9, as stated, fails: the line stored right token first is stored left token
  first after it has been formatted, alone and as a line of a page.
\<close>

theorem formatting_reorders_stored_line:
  "unsorted_line = [plain_item ''b'' 30 700 ''Arial-Bold'', plain_item ''a'' 8 700 ''Arial'']
   \<and> snd (formatLineWithSpacing ansi unsorted_line)
       = [plain_item ''a'' 8 700 ''Arial'', plain_item ''b'' 30 700 ''Arial-Bold'']
   \<and> lines (line_step ansi (page_init [unsorted_line] []) 0)
       = [[plain_item ''a'' 8 700 ''Arial'', plain_item ''b'' 30 700 ''Arial-Bold'']]
   \<and> snd (formatLineWithSpacing ansi unsorted_line) \<noteq> unsorted_line"
  by code_simp

section \<open>Line grouper\<close>

lemma group_item_dropped: "\<not> kept it \<Longrightarrow> group_item ch links g it = g"
  by (simp add: group_item_def kept_def)

lemma group_fold_filter:
  "foldl (group_item ch links) g its = foldl (group_item ch links) g (filter kept its)"
  by (induction its arbitrary: g) (simp_all add: group_item_dropped)

lemma group_row_continue:
  "same_row (a # r) \<Longrightarrow> lastY g = Some (item_y a) \<Longrightarrow> list_all kept r \<Longrightarrow>
   foldl (group_item ch links) g r =
     g\<lparr> currentLine := currentLine g @ map (make_item ch links) r,
        lastY := Some (item_y (last (a # r))) \<rparr>"
proof (induction r arbitrary: a g)
  case Nil
  then show ?case by simp
next
  case (Cons b r)
  let ?g = "g\<lparr> currentLine := currentLine g @ [make_item ch links b], lastY := Some (item_y b) \<rparr>"
  have step: "group_item ch links g b = ?g"
    using Cons.prems by (simp add: group_item_def kept_def new_row_def)
  have "foldl (group_item ch links) ?g r =
     ?g\<lparr> currentLine := currentLine ?g @ map (make_item ch links) r,
        lastY := Some (item_y (last (b # r))) \<rparr>"
    using Cons.prems by (intro Cons.IH) simp_all
  then show ?case by (simp add: step)
qed

lemma group_row:
  assumes "r \<noteq> []" "same_row r" "list_all kept r" "new_row (lastY g) (item_y (hd r))"
  shows "foldl (group_item ch links) g r =
     \<lparr> glines = glines (close_line g), currentLine = map (make_item ch links) r,
       lastY = Some (item_y (last r)) \<rparr>"
proof -
  obtain a r' where r: "r = a # r'" using assms(1) by (cases r) auto
  let ?g = "\<lparr> glines = glines (close_line g), currentLine = [make_item ch links a],
             lastY = Some (item_y a) \<rparr>"
  have step: "group_item ch links g a = ?g"
    using assms r by (simp add: group_item_def kept_def close_line_def)
  have "foldl (group_item ch links) ?g r' =
     ?g\<lparr> currentLine := currentLine ?g @ map (make_item ch links) r',
        lastY := Some (item_y (last (a # r'))) \<rparr>"
    using assms r by (intro group_row_continue) simp_all
  then show ?thesis by (simp add: r step)
qed

lemma group_rows:
  "rows_ok rows \<Longrightarrow> list_all kept (concat rows) \<Longrightarrow>
   (rows \<noteq> [] \<Longrightarrow> new_row (lastY g) (item_y (hd (hd rows)))) \<Longrightarrow>
   glines (close_line (foldl (group_item ch links) g (concat rows))) =
     glines (close_line g) @ map (map (make_item ch links)) rows"
proof (induction rows arbitrary: g rule: rows_ok.induct)
  case 1
  then show ?case by simp
next
  case (2 r)
  then have "foldl (group_item ch links) g r =
     \<lparr> glines = glines (close_line g), currentLine = map (make_item ch links) r,
       lastY = Some (item_y (last r)) \<rparr>"
    by (intro group_row) simp_all
  then show ?case using 2 by (simp add: close_line_def)
next
  case (3 r r' rs)
  let ?g = "\<lparr> glines = glines (close_line g), currentLine = map (make_item ch links) r,
       lastY = Some (item_y (last r)) \<rparr>"
  have row: "foldl (group_item ch links) g r = ?g"
    using 3 by (intro group_row) simp_all
  have "glines (close_line (foldl (group_item ch links) ?g (concat (r' # rs)))) =
     glines (close_line ?g) @ map (map (make_item ch links)) (r' # rs)"
    using 3 by (intro "3.IH") (simp_all add: new_row_def)
  moreover have "glines (close_line ?g) = glines (close_line g) @ [map (make_item ch links) r]"
    using 3 by (simp add: close_line_def)
  ultimately show ?case using row by simp
qed

lemma gathered_close: "gathered (close_line g) = gathered g"
  by (simp add: gathered_def close_line_def)

lemma gathered_step:
  "gathered (group_item ch links g it) =
     gathered g @ (if kept it then [make_item ch links it] else [])"
proof -
  have "gathered (close_line g\<lparr> currentLine := currentLine (close_line g) @ [t], lastY := y \<rparr>)
          = gathered g @ [t]" for t y
    using gathered_close[of g] by (simp add: gathered_def)
  then show ?thesis
    by (simp add: group_item_def kept_def Let_def) (simp add: gathered_def)
qed

lemma gathered_fold:
  "gathered (foldl (group_item ch links) g its) =
     gathered g @ map (make_item ch links) (filter kept its)"
  by (induction its arbitrary: g) (simp_all add: gathered_step)

lemma group_lines_concat:
  "concat (group_lines ch links its) = map (make_item ch links) (filter kept its)"
proof -
  let ?g = "foldl (group_item ch links) \<lparr> glines = [], currentLine = [], lastY = None \<rparr> its"
  have "concat (group_lines ch links its) = gathered (close_line ?g)"
    by (simp add: group_lines_def gathered_def close_line_def)
  then show ?thesis by (simp add: gathered_close gathered_fold) (simp add: gathered_def)
qed

text \<open>
  Claim C3. A fragment that survives ingestion closes the current line when \<open>lastY\<close> is
  unset or differs from its y by more than 5 (the closed line is emitted when it is not
  empty), is then appended to the current line, and becomes \<open>lastY\<close>; a blank fragment
  changes nothing; the lines of a page hold the surviving fragments in order. Hence,
  when the surviving fragments are the concatenation of rows whose consecutive
  y-differences exceed 5 exactly at the row boundaries, the grouper returns exactly one
  line per row.
\<close>

theorem line_grouper_one_line_per_row:
  "(kept it \<longrightarrow> group_item ch links g it =
      (if lastY g = None \<or> (\<exists>ly. lastY g = Some ly \<and> \<bar>item_y it - ly\<bar> > 5)
       then \<lparr> glines = (if currentLine g = [] then glines g else glines g @ [currentLine g]),
              currentLine = [make_item ch links it], lastY = Some (item_y it) \<rparr>
       else \<lparr> glines = glines g, currentLine = currentLine g @ [make_item ch links it],
              lastY = Some (item_y it) \<rparr>))
   \<and> (\<not> kept it \<longrightarrow> group_item ch links g it = g)
   \<and> concat (group_lines ch links its) = map (make_item ch links) (filter kept its)
   \<and> (rows_ok rows \<and> filter kept its = concat rows
        \<longrightarrow> group_lines ch links its = map (map (make_item ch links)) rows)"
proof (intro conjI impI)
  show "group_item ch links g it =
      (if lastY g = None \<or> (\<exists>ly. lastY g = Some ly \<and> \<bar>item_y it - ly\<bar> > 5)
       then \<lparr> glines = (if currentLine g = [] then glines g else glines g @ [currentLine g]),
              currentLine = [make_item ch links it], lastY = Some (item_y it) \<rparr>
       else \<lparr> glines = glines g, currentLine = currentLine g @ [make_item ch links it],
              lastY = Some (item_y it) \<rparr>)" if "kept it"
    using that
    by (cases "lastY g") (simp_all add: group_item_def kept_def new_row_def close_line_def)
  show "group_item ch links g it = g" if "\<not> kept it"
    using that by (rule group_item_dropped)
  show "concat (group_lines ch links its) = map (make_item ch links) (filter kept its)"
    by (rule group_lines_concat)
next
  assume a: "rows_ok rows \<and> filter kept its = concat rows"
  let ?g0 = "\<lparr> glines = [], currentLine = [], lastY = None \<rparr>"
  have "list_all kept (filter kept its)" by (simp add: list_all_iff)
  then have k: "list_all kept (concat rows)" using a by simp
  have "glines (close_line (foldl (group_item ch links) ?g0 (concat rows))) =
     glines (close_line ?g0) @ map (map (make_item ch links)) rows"
    using a k by (intro group_rows) (simp_all add: new_row_def)
  then show "group_lines ch links its = map (map (make_item ch links)) rows"
    using a by (simp add: group_lines_def group_fold_filter[of ch links _ its] close_line_def)
qed

theorem line_grouper_one_line_per_row_witness:
  "rows_ok sample_rows \<and> filter kept sample_fragments = concat sample_rows
   \<and> group_lines ansi [] sample_fragments =
       [[plain_item ''Hello'' 50 700 ''Arial'', plain_item ''World'' 90 698 ''Arial''],
        [plain_item ''Next'' 50 680 ''Arial'']]"
proof -
  have h: "rows_ok sample_rows \<and> filter kept sample_fragments = concat sample_rows"
    by code_simp
  have m: "map (map (make_item ansi [])) sample_rows =
       [[plain_item ''Hello'' 50 700 ''Arial'', plain_item ''World'' 90 698 ''Arial''],
        [plain_item ''Next'' 50 680 ''Arial'']]"
    by code_simp
  show ?thesis
    using line_grouper_one_line_per_row[of _ ansi "[]" _ sample_fragments sample_rows] h m
    by simp
qed

section \<open>The classification loop\<close>

lemma format_pair:
  "formatLineWithSpacing ch l = (formattedLineOf ch l, sort_key xpos l)"
  by (simp add: formattedLineOf_def formatLineWithSpacing_def Let_def)

lemma line_step_alt:
  "line_step ch st i =
     (let rawLine = rawLineOf (lines st ! i);
          formattedLine = formattedLineOf ch (lines st ! i);
          st1 = st\<lparr> lines := (lines st)[i := sort_key xpos (lines st ! i)] \<rparr>
      in case branch_of st i of
           Skip \<Rightarrow> st1
         | SectionHeader \<Rightarrow>
             console_log [[CHR 0x0A] @ yellow_bold_underline ch (toUpperCase rawLine)]
               (st1\<lparr> inProjects := includes_str (toLowerCase rawLine) ''project'',
                     inExperience := includes_str (toLowerCase rawLine) ''experience'',
                     inEducation := includes_str (toLowerCase rawLine) ''education'',
                     eduBuffer := [] \<rparr>)
         | Education \<Rightarrow>
             (let buf = eduBuffer st1 @ [formattedLine]
              in if length buf = 2
                 then console_log [edu_pair ch (buf ! 0) (buf ! 1)] (st1\<lparr> eduBuffer := [] \<rparr>)
                 else st1\<lparr> eduBuffer := buf \<rparr>)
         | ExperienceTitle \<Rightarrow> console_log [[CHR 0x0A] @ cyan_bold_underline ch rawLine] st1
         | ExperienceLine \<Rightarrow> console_log [formattedLine] st1
         | ProjectTitle \<Rightarrow>
             console_log [[], cyan_bold_underline ch formattedLine] (st1\<lparr> lastProjectIndex := int i \<rparr>)
         | GithubLink \<Rightarrow> console_log [formattedLine] st1
         | TechStack \<Rightarrow> console_log [gray_italic ch formattedLine] st1
         | Skills \<Rightarrow> console_log [highlightSkillKey ch formattedLine] st1
         | Verify \<Rightarrow> console_log [formattedLine] st1
         | Default \<Rightarrow>
             console_log (formattedLine #
                  (if inProjects st1 \<and> i + 1 < length (lines st1)
                      \<and> isProjectTitle (rawLineOf (lines st1 ! (i + 1)))
                   then [[]] else []))
               st1)"
  unfolding line_step_def format_pair edu_pair_def Let_def prod.case
  by (rule refl)

lemma lines_line_step:
  "lines (line_step ch st i) = (lines st)[i := sort_key xpos (lines st ! i)]"
  by (simp add: line_step_alt Let_def console_log_def split: branch.split)

lemma length_lines_line_step: "length (lines (line_step ch st i)) = length (lines st)"
  by (simp add: lines_line_step)

lemma flags_line_step:
  "branch_of st i \<noteq> SectionHeader \<Longrightarrow>
   inProjects (line_step ch st i) = inProjects st
   \<and> inExperience (line_step ch st i) = inExperience st
   \<and> inEducation (line_step ch st i) = inEducation st"
  by (simp add: line_step_alt Let_def console_log_def split: branch.split)

lemma branch_of_with_console: "branch_of (with_console con st) i = branch_of st i"
  by (simp add: branch_of_def with_console_def Let_def)

lemma line_step_with_console:
  "line_step ch (with_console con st) i = with_console con (line_step ch st i)"
  unfolding line_step_alt branch_of_with_console
  by (simp add: Let_def with_console_def console_log_def split: branch.split)

lemma run_lines_with_console:
  "run_lines ch (with_console con st) i n = with_console con (run_lines ch st i n)"
  unfolding run_lines_def
  by (induction n) (simp_all add: line_step_with_console)

lemma classify_with_console:
  "classify ch (with_console con st) = with_console con (classify ch st)"
proof -
  have "lines (with_console con st) = lines st" by (simp add: with_console_def)
  then show ?thesis by (simp add: classify_def run_lines_with_console)
qed

lemma run_lines_Suc:
  "run_lines ch st i (Suc n) = line_step ch (run_lines ch st i n) (i + n)"
  by (simp add: run_lines_def)

lemma run_lines_0: "run_lines ch st i 0 = st"
  by (simp add: run_lines_def)

lemma length_lines_run: "length (lines (run_lines ch st i n)) = length (lines st)"
  by (induction n) (simp_all add: run_lines_Suc run_lines_0 length_lines_line_step)

lemma lines_run_later:
  "i + n \<le> j \<Longrightarrow> lines (run_lines ch st i n) ! j = lines st ! j"
  by (induction n) (simp_all add: run_lines_Suc run_lines_0 lines_line_step)

lemma process_page_console: "process_page ch con p = con @ process_page ch [] p"
proof -
  have "page_init ls con = with_console con (page_init ls [])" for ls
    by (simp add: page_init_def with_console_def)
  then show ?thesis
    by (simp add: process_page_def classify_def run_lines_with_console)
       (simp add: with_console_def)
qed

lemma extract_fold:
  "foldl (process_page ch) con pages = con @ concat (map (process_page ch []) pages)"
proof (induction pages arbitrary: con)
  case Nil
  then show ?case by simp
next
  case (Cons p pages)
  have "foldl (process_page ch) con (p # pages) =
        process_page ch con p @ concat (map (process_page ch []) pages)"
    by (simp add: Cons.IH[of "process_page ch con p"])
  also have "\<dots> = con @ concat (map (process_page ch []) (p # pages))"
    by (subst process_page_console) simp
  finally show ?case .
qed

lemma isSectionHeader_Nil: "\<not> isSectionHeader []"
  by (simp add: isSectionHeader_def sectionKeywords_def startsWith_def toLowerCase_def)

lemma branch_header_iff:
  "branch_of st i = SectionHeader \<longleftrightarrow> isSectionHeader (rawLineOf (lines st ! i))"
  using isSectionHeader_Nil by (auto simp: branch_of_def Let_def)

lemma header_step:
  "branch_of st i = SectionHeader \<Longrightarrow>
   inProjects (line_step ch st i) = includes_str (toLowerCase (rawLineOf (lines st ! i))) ''project''
   \<and> inExperience (line_step ch st i)
       = includes_str (toLowerCase (rawLineOf (lines st ! i))) ''experience''
   \<and> inEducation (line_step ch st i)
       = includes_str (toLowerCase (rawLineOf (lines st ! i))) ''education''
   \<and> eduBuffer (line_step ch st i) = []
   \<and> lastProjectIndex (line_step ch st i) = lastProjectIndex st
   \<and> console (line_step ch st i) = console st
       @ [[CHR 0x0A] @ yellow_bold_underline ch (toUpperCase (rawLineOf (lines st ! i)))]"
  by (simp add: line_step_alt Let_def console_log_def)

subsection \<open>Pages\<close>

text \<open>
  Claim C1, as amended. The classifier's variables do not persist across a page
  boundary: every page starts from the initial values (no section flag set, last
  project-title index -2, empty education buffer), whatever the previous page left, so
  that what a document logs is what its pages log one by one, each processed alone.
\<close>

theorem pages_start_from_initial_state:
  "classifier_vars (page_start_state ch pages n) = (False, False, False, - 2, [])
   \<and> classifier_vars (page_end_state ch pages n)
       = classifier_vars (page_end_state ch [pages ! n] 0)
   \<and> extractFormattedText ch pages = concat (map (\<lambda>p. extractFormattedText ch [p]) pages)"
proof (intro conjI)
  show "classifier_vars (page_start_state ch pages n) = (False, False, False, - 2, [])"
    by (simp add: classifier_vars_def page_start_state_def page_init_def)
  have "page_start_state ch pages n
      = with_console (extractFormattedText ch (take n pages)) (page_start_state ch [pages ! n] 0)"
    by (simp add: page_start_state_def page_init_def with_console_def extractFormattedText_def)
  then have "page_end_state ch pages n
      = with_console (extractFormattedText ch (take n pages)) (page_end_state ch [pages ! n] 0)"
    by (simp add: page_end_state_def classify_with_console)
  then show "classifier_vars (page_end_state ch pages n)
       = classifier_vars (page_end_state ch [pages ! n] 0)"
    by (simp add: classifier_vars_def with_console_def)
  show "extractFormattedText ch pages = concat (map (\<lambda>p. extractFormattedText ch [p]) pages)"
    by (simp add: extractFormattedText_def extract_fold[of ch "[]"])
qed

theorem pages_start_from_initial_state_witness:
  "classifier_vars (page_start_state ansi two_pages 1) = (False, False, False, - 2, [])
   \<and> classifier_vars (page_end_state ansi two_pages 1) = (False, False, False, - 2, [])
   \<and> extractFormattedText ansi two_pages
       = [[CHR 0x0A] @ yellow_bold_underline ansi ''EDUCATION'', ''BSc'']"
proof -
  have e: "classifier_vars (page_end_state ansi [two_pages ! Suc 0] 0)
      = (False, False, False, - 2, [])"
    by code_simp
  have c: "concat (map (\<lambda>p. extractFormattedText ansi [p]) two_pages)
       = [[CHR 0x0A] @ yellow_bold_underline ansi ''EDUCATION'', ''BSc'']"
    by code_simp
  show ?thesis using pages_start_from_initial_state[of ansi two_pages 1] e c by simp
qed

text \<open>
  Claim C1, as stated, fails: the first page ends inside its education section with one
  line buffered, and the second page starts with no section and an empty buffer.
\<close>

theorem classifier_state_reset_between_pages:
  "classifier_vars (page_end_state ansi two_pages 0) = (False, False, True, - 2, [''MIT''])
   \<and> classifier_vars (page_start_state ansi two_pages 1) = (False, False, False, - 2, [])
   \<and> classifier_vars (page_start_state ansi two_pages 1)
       \<noteq> classifier_vars (page_end_state ansi two_pages 0)"
  by code_simp

subsection \<open>Section flags\<close>

text \<open>
  Claim C2, as amended. The section is held in three flags. A line that is not a
  section header leaves the three flags as they are; a line is handled as a section
  header exactly when its raw text, lower-cased, starts with one of the five keywords;
  and a header sets each flag on its own, to whether the lower-cased raw text contains
  project, experience, education. (So a header can set more than one flag, and a skills or
  certifications header clears all three.)
\<close>

theorem section_flags_change_only_at_headers:
  "(branch_of st i \<noteq> SectionHeader \<longrightarrow>
      inProjects (line_step ch st i) = inProjects st
      \<and> inExperience (line_step ch st i) = inExperience st
      \<and> inEducation (line_step ch st i) = inEducation st)
   \<and> (branch_of st i = SectionHeader \<longleftrightarrow> isSectionHeader (rawLineOf (lines st ! i)))
   \<and> (branch_of st i = SectionHeader \<longrightarrow>
      inProjects (line_step ch st i)
        = includes_str (toLowerCase (rawLineOf (lines st ! i))) ''project''
      \<and> inExperience (line_step ch st i)
        = includes_str (toLowerCase (rawLineOf (lines st ! i))) ''experience''
      \<and> inEducation (line_step ch st i)
        = includes_str (toLowerCase (rawLineOf (lines st ! i))) ''education'')"
  using flags_line_step[of st i ch] header_step[of st i ch] branch_header_iff[of st i]
  by blast

theorem section_flags_change_only_at_headers_witness:
  "branch_of (page_init experience_lines []) 0 = SectionHeader
   \<and> inExperience (after_header experience_lines)
   \<and> \<not> inProjects (after_header experience_lines)
   \<and> \<not> inEducation (after_header experience_lines)
   \<and> branch_of (after_header experience_lines) 1 = ExperienceTitle
   \<and> inExperience (line_step ansi (after_header experience_lines) 1)
   \<and> \<not> inProjects (line_step ansi (after_header experience_lines) 1)
   \<and> \<not> inEducation (line_step ansi (after_header experience_lines) 1)"
proof -
  have b0: "branch_of (page_init experience_lines []) 0 = SectionHeader" by code_simp
  have r0: "includes_str (toLowerCase (rawLineOf (lines (page_init experience_lines []) ! 0)))
              ''experience''"
    "\<not> includes_str (toLowerCase (rawLineOf (lines (page_init experience_lines []) ! 0)))
              ''project''"
    "\<not> includes_str (toLowerCase (rawLineOf (lines (page_init experience_lines []) ! 0)))
              ''education''"
    by code_simp+
  have f0: "inExperience (after_header experience_lines)"
    "\<not> inProjects (after_header experience_lines)"
    "\<not> inEducation (after_header experience_lines)"
    using section_flags_change_only_at_headers[of "page_init experience_lines []" 0 ansi] b0 r0
    unfolding after_header_def by blast+
  have b1: "branch_of (after_header experience_lines) 1 = ExperienceTitle" by code_simp
  then have "branch_of (after_header experience_lines) 1 \<noteq> SectionHeader" by simp
  then show ?thesis
    using section_flags_change_only_at_headers[of "after_header experience_lines" 1 ansi]
      b0 b1 f0 by blast
qed

text \<open>
  Claim C2, as stated, fails: after the header line \<open>Education and Experience\<close> the
  education flag and the experience flag are both set.
\<close>

theorem two_sections_active_at_once:
  "isSectionHeader ''Education and Experience''
   \<and> classifier_vars (page_end_state ansi [double_header_page] 0)
       = (False, True, True, - 2, [])
   \<and> inExperience (page_end_state ansi [double_header_page] 0)
   \<and> inEducation (page_end_state ansi [double_header_page] 0)"
  by code_simp

subsection \<open>Education\<close>

lemma branch_education:
  "inEducation st \<Longrightarrow> rawLineOf (lines st ! i) \<noteq> [] \<Longrightarrow>
   \<not> isSectionHeader (rawLineOf (lines st ! i)) \<Longrightarrow> branch_of st i = Education"
  by (simp add: branch_of_def Let_def)

lemma edu_step_first:
  "branch_of st i = Education \<Longrightarrow> eduBuffer st = [] \<Longrightarrow>
   eduBuffer (line_step ch st i) = [formattedLineOf ch (lines st ! i)]
   \<and> console (line_step ch st i) = console st"
  by (simp add: line_step_alt Let_def console_log_def)

lemma edu_step_second:
  "branch_of st i = Education \<Longrightarrow> eduBuffer st = [a] \<Longrightarrow>
   eduBuffer (line_step ch st i) = []
   \<and> console (line_step ch st i)
       = console st @ [edu_pair ch a (formattedLineOf ch (lines st ! i))]"
  by (simp add: line_step_alt Let_def console_log_def)

lemma edu_lines_Suc: "edu_lines st i (Suc n) \<Longrightarrow> edu_lines st i n"
  by (simp add: edu_lines_def)

lemma edu_emitted_Suc_even: "even n \<Longrightarrow> edu_emitted ch st i (Suc n) = edu_emitted ch st i n"
  by (simp add: edu_emitted_def)

lemma edu_emitted_Suc_odd:
  assumes "odd n"
  shows "edu_emitted ch st i (Suc n) = edu_emitted ch st i n
     @ [edu_pair ch (formattedLineOf ch (lines st ! (i + n - 1)))
                    (formattedLineOf ch (lines st ! (i + n)))]"
proof -
  obtain k where n: "n = 2 * k + 1" using assms by (auto elim: oddE)
  show ?thesis by (simp add: edu_emitted_def n)
qed

lemma edu_run:
  "edu_lines st i n \<Longrightarrow>
   console (run_lines ch st i n) = console st @ edu_emitted ch st i n
   \<and> eduBuffer (run_lines ch st i n)
       = (if even n then [] else [formattedLineOf ch (lines st ! (i + n - 1))])
   \<and> inEducation (run_lines ch st i n)"
proof (induction n)
  case 0
  then show ?case by (simp add: run_lines_0 edu_lines_def edu_emitted_def)
next
  case (Suc n)
  let ?s = "run_lines ch st i n"
  have ih: "console ?s = console st @ edu_emitted ch st i n"
    "eduBuffer ?s = (if even n then [] else [formattedLineOf ch (lines st ! (i + n - 1))])"
    "inEducation ?s"
    using Suc.IH[OF edu_lines_Suc[OF Suc.prems]] by simp_all
  have same: "lines ?s ! (i + n) = lines st ! (i + n)"
    by (simp add: lines_run_later)
  have "rawLineOf (lines st ! (i + n)) \<noteq> []
        \<and> \<not> isSectionHeader (rawLineOf (lines st ! (i + n)))"
    using Suc.prems by (simp add: edu_lines_def)
  then have br: "branch_of ?s (i + n) = Education"
    using ih(3) same by (intro branch_education) simp_all
  show ?case
  proof (cases "even n")
    case True
    then have "eduBuffer ?s = []" using ih(2) by simp
    from edu_step_first[OF br this, of ch] show ?thesis
      using True ih(1) flags_line_step[of ?s "i + n" ch] br ih(3)
      by (simp add: run_lines_Suc same edu_emitted_Suc_even)
  next
    case False
    then have "eduBuffer ?s = [formattedLineOf ch (lines st ! (i + n - 1))]" using ih(2) by simp
    from edu_step_second[OF br this, of ch] show ?thesis
      using False ih(1) flags_line_step[of ?s "i + n" ch] br ih(3)
      by (simp add: run_lines_Suc same edu_emitted_Suc_odd)
  qed
qed

lemma edu_lines_le: "edu_lines st i n \<Longrightarrow> m \<le> n \<Longrightarrow> edu_lines st i m"
  by (induction n) (auto simp: le_Suc_eq dest: edu_lines_Suc)

lemma edu_buffer_bound_step:
  assumes "length (eduBuffer st) \<le> 1"
  shows "length (eduBuffer (line_step ch st i)) \<le> 1"
proof -
  consider "eduBuffer st = []" | a where "eduBuffer st = [a]"
    using assms by (cases "eduBuffer st") auto
  then show ?thesis
    by cases (simp_all add: line_step_alt Let_def console_log_def split: branch.split)
qed

lemma edu_buffer_bound_run:
  "length (eduBuffer st) \<le> 1 \<Longrightarrow> length (eduBuffer (run_lines ch st i n)) \<le> 1"
proof (induction n)
  case 0
  then show ?case by (simp add: run_lines_0)
next
  case (Suc n)
  show ?case
    using edu_buffer_bound_step[OF Suc.IH[OF Suc.prems], of ch "i + n"]
    by (simp add: run_lines_Suc)
qed

text \<open>
  Claim C5. Whatever the lines of a page, the buffer holds at most one entry after
  every line. For \<open>n\<close> consecutive non-header lines of an education section, starting with
  the buffer empty: exactly \<open>n div 2\<close> strings are logged, the k-th pairing line \<open>2k\<close> as
  bold title with line \<open>2k + 1\<close> as indented gray subtitle; the buffer then is empty when
  \<open>n\<close> is even and holds the last line alone when \<open>n\<close> is odd; between lines the buffer
  never holds more than one entry (two only inside the step that flushes it); and when
  the next line is a section header, the buffer is cleared and only the header is
  logged, so that an odd trailing line is never logged.
\<close>

theorem education_lines_emitted_in_pairs:
  "length (eduBuffer (run_lines ch (page_init ls con) 0 k)) \<le> 1
   \<and> (edu_lines st i n \<longrightarrow>
     console (run_lines ch st i n) = console st @ edu_emitted ch st i n
     \<and> length (edu_emitted ch st i n) = n div 2
     \<and> eduBuffer (run_lines ch st i n)
         = (if even n then [] else [formattedLineOf ch (lines st ! (i + n - 1))])
     \<and> (\<forall>m\<le>n. length (eduBuffer (run_lines ch st i m)) \<le> 1)
     \<and> (i + n < length (lines st) \<and> isSectionHeader (rawLineOf (lines st ! (i + n))) \<longrightarrow>
          eduBuffer (run_lines ch st i (Suc n)) = []
          \<and> console (run_lines ch st i (Suc n)) = console st @ edu_emitted ch st i n
              @ [[CHR 0x0A] @ yellow_bold_underline ch (toUpperCase (rawLineOf (lines st ! (i + n))))]))"
proof (intro impI conjI allI)
  show "length (eduBuffer (run_lines ch (page_init ls con) 0 k)) \<le> 1"
    by (intro edu_buffer_bound_run) (simp add: page_init_def)
next
  assume a: "edu_lines st i n"
  show "console (run_lines ch st i n) = console st @ edu_emitted ch st i n"
    using edu_run[OF a] by simp
  show "length (edu_emitted ch st i n) = n div 2" by (simp add: edu_emitted_def)
  show "eduBuffer (run_lines ch st i n)
         = (if even n then [] else [formattedLineOf ch (lines st ! (i + n - 1))])"
    using edu_run[OF a] by simp
  show "length (eduBuffer (run_lines ch st i m)) \<le> 1" if "m \<le> n" for m
    using edu_run[OF edu_lines_le[OF a that], of ch] by simp
  assume h: "i + n < length (lines st) \<and> isSectionHeader (rawLineOf (lines st ! (i + n)))"
  let ?s = "run_lines ch st i n"
  have same: "lines ?s ! (i + n) = lines st ! (i + n)" by (simp add: lines_run_later)
  then have br: "branch_of ?s (i + n) = SectionHeader" using h by (simp add: branch_header_iff)
  show "eduBuffer (run_lines ch st i (Suc n)) = []"
    using header_step[OF br, of ch] by (simp add: run_lines_Suc)
  show "console (run_lines ch st i (Suc n)) = console st @ edu_emitted ch st i n
      @ [[CHR 0x0A] @ yellow_bold_underline ch (toUpperCase (rawLineOf (lines st ! (i + n))))]"
    using header_step[OF br, of ch] edu_run[OF a, of ch] by (simp add: run_lines_Suc same)
qed

theorem education_lines_emitted_in_pairs_witness:
  "edu_lines (after_header education_lines) 1 3
   \<and> console (run_lines ansi (after_header education_lines) 1 3)
       = console (after_header education_lines) @ [edu_pair ansi ''MIT'' ''BSc'']
   \<and> eduBuffer (run_lines ansi (after_header education_lines) 1 3) = [''Stanford'']
   \<and> eduBuffer (run_lines ansi (after_header education_lines) 1 4) = []
   \<and> console (run_lines ansi (after_header education_lines) 1 4)
       = console (after_header education_lines)
         @ [edu_pair ansi ''MIT'' ''BSc'', [CHR 0x0A] @ yellow_bold_underline ansi ''SKILLS'']"
proof -
  let ?S = "after_header education_lines"
  have e: "edu_lines ?S 1 3" by code_simp
  have m: "edu_emitted ansi ?S 1 3 = [edu_pair ansi ''MIT'' ''BSc'']" by code_simp
  have f: "formattedLineOf ansi (lines ?S ! 3) = ''Stanford''" by code_simp
  have h: "4 < length (lines ?S)" "isSectionHeader (rawLineOf (lines ?S ! 4))" by code_simp+
  have u: "toUpperCase (rawLineOf (lines ?S ! 4)) = ''SKILLS''" by code_simp
  show ?thesis
    using education_lines_emitted_in_pairs[of ansi _ _ _ ?S 1 3] e h
    by (simp add: m[simplified] f u)
qed

subsection \<open>Experience\<close>

lemma singleton_sorted_cond:
  "(isBold (case sort_key xpos l of [] \<Rightarrow> [] | it # _ \<Rightarrow> fontName it)
      \<and> length (sort_key xpos l) = 1 \<and> P)
   = (length l = 1 \<and> isBold (fontName (hd l)) \<and> P)"
proof (cases "length l = 1")
  case True
  then obtain t where "l = [t]" by (cases l) auto
  then show ?thesis by simp
next
  case False
  then show ?thesis by simp
qed

lemma branch_experience:
  assumes "inExperience st" "\<not> inEducation st" "rawLineOf (lines st ! i) \<noteq> []"
    "\<not> isSectionHeader (rawLineOf (lines st ! i))"
  shows "branch_of st i
    = (if experience_title (lines st ! i) then ExperienceTitle else ExperienceLine)"
  using assms singleton_sorted_cond[of "lines st ! i" "length (rawLineOf (lines st ! i)) < 40"]
  by (simp add: branch_of_def Let_def experience_title_def)

lemma formattedLineOf_not_newline: "formattedLineOf ch l \<noteq> CHR 0x0A # r"
  by (simp add: formattedLineOf_def formatLineWithSpacing_def Let_def trim_not_newline)

lemma experience_step:
  assumes "inExperience st" "\<not> inEducation st" "rawLineOf (lines st ! i) \<noteq> []"
    "\<not> isSectionHeader (rawLineOf (lines st ! i))"
  shows "console (line_step ch st i) = console st @
     [if experience_title (lines st ! i)
      then [CHR 0x0A] @ cyan_bold_underline ch (rawLineOf (lines st ! i))
      else formattedLineOf ch (lines st ! i)]"
  using branch_experience[OF assms]
  by (simp add: line_step_alt Let_def console_log_def)

lemma scenario_strings:
  "trim ''EXPERIENCE'' = ''EXPERIENCE''" "trim ''Senior Engineer'' = ''Senior Engineer''"
  "isSectionHeader ''EXPERIENCE''" "\<not> isSectionHeader ''Senior Engineer''"
  "toUpperCase ''EXPERIENCE'' = ''EXPERIENCE''"
  "includes_str (toLowerCase ''EXPERIENCE'') ''experience''"
  "\<not> includes_str (toLowerCase ''EXPERIENCE'') ''education''"
  "\<not> includes_str (toLowerCase ''EXPERIENCE'') ''project''"
  by code_simp+

lemma experience_scenario:
  assumes "raw t1 = ''EXPERIENCE''" "raw t2 = ''Senior Engineer''" "isBold (fontName t2)"
  shows "console (classify ch (page_init [[t1], [t2]] [])) =
     [[CHR 0x0A] @ yellow_bold_underline ch ''EXPERIENCE'',
      [CHR 0x0A] @ cyan_bold_underline ch ''Senior Engineer'']"
proof -
  define s0 where "s0 = page_init [[t1], [t2]] []"
  define s1 where "s1 = line_step ch s0 0"
  have init: "lines s0 = [[t1], [t2]]" "console s0 = []"
    by (simp_all add: s0_def page_init_def)
  have r0: "rawLineOf (lines s0 ! 0) = ''EXPERIENCE''"
    using assms by (simp add: init rawLineOf_def scenario_strings)
  have b0: "branch_of s0 0 = SectionHeader"
    by (simp add: branch_header_iff r0 scenario_strings)
  have h: "inExperience s1" "\<not> inEducation s1"
    "console s1 = [[CHR 0x0A] @ yellow_bold_underline ch ''EXPERIENCE'']"
    using header_step[OF b0, of ch, unfolded r0]
    by (simp_all add: s1_def scenario_strings init)
  have l1: "lines s1 ! Suc 0 = [t2]" by (simp add: s1_def lines_line_step init)
  have r1: "rawLineOf (lines s1 ! Suc 0) = ''Senior Engineer''"
    unfolding l1 using assms by (simp add: rawLineOf_def scenario_strings)
  have e: "experience_title (lines s1 ! Suc 0)"
    unfolding experience_title_def r1 unfolding l1 using assms by simp
  have "console (line_step ch s1 (Suc 0)) = console s1 @
     [if experience_title (lines s1 ! Suc 0)
      then [CHR 0x0A] @ cyan_bold_underline ch (rawLineOf (lines s1 ! Suc 0))
      else formattedLineOf ch (lines s1 ! Suc 0)]"
    using h by (intro experience_step) (simp_all add: r1 scenario_strings)
  then have "console (line_step ch s1 (Suc 0)) =
     [[CHR 0x0A] @ yellow_bold_underline ch ''EXPERIENCE'',
      [CHR 0x0A] @ cyan_bold_underline ch ''Senior Engineer'']"
    using h e by (simp add: r1)
  moreover have "classify ch s0 = line_step ch s1 (Suc 0)"
    by (simp add: classify_def run_lines_def init s1_def)
  ultimately show ?thesis by (simp add: s0_def)
qed

text \<open>
  Claim C8. In the experience section (experience flag set, education flag not set), a
  non-header line is logged as a new line followed by its raw text in the title style
  exactly when it has one token, the token's font is bold-class and the raw text is under
  40 characters; every other line is logged as its formatted text. The lines
  \<open>EXPERIENCE\<close> and \<open>Senior Engineer\<close> (bold) are logged as the header-styled
  \<open>EXPERIENCE\<close>, then a blank line and the title-styled \<open>Senior Engineer\<close>.
\<close>

theorem experience_title_iff:
  "(inExperience st \<and> \<not> inEducation st \<and> rawLineOf (lines st ! i) \<noteq> []
      \<and> \<not> isSectionHeader (rawLineOf (lines st ! i)) \<longrightarrow>
      ((console (line_step ch st i)
          = console st @ [[CHR 0x0A] @ cyan_bold_underline ch (rawLineOf (lines st ! i))])
        = (length (lines st ! i) = 1 \<and> isBold (fontName (hd (lines st ! i)))
           \<and> length (rawLineOf (lines st ! i)) < 40))
      \<and> (\<not> (length (lines st ! i) = 1 \<and> isBold (fontName (hd (lines st ! i)))
           \<and> length (rawLineOf (lines st ! i)) < 40) \<longrightarrow>
          console (line_step ch st i) = console st @ [formattedLineOf ch (lines st ! i)]))
   \<and> (raw t1 = ''EXPERIENCE'' \<and> raw t2 = ''Senior Engineer'' \<and> isBold (fontName t2) \<longrightarrow>
        console (classify ch (page_init [[t1], [t2]] [])) =
          [[CHR 0x0A] @ yellow_bold_underline ch ''EXPERIENCE'',
           [CHR 0x0A] @ cyan_bold_underline ch ''Senior Engineer''])"
proof (intro conjI impI)
  assume a: "inExperience st \<and> \<not> inEducation st \<and> rawLineOf (lines st ! i) \<noteq> []
      \<and> \<not> isSectionHeader (rawLineOf (lines st ! i))"
  then have c: "console (line_step ch st i) = console st @
     [if experience_title (lines st ! i)
      then [CHR 0x0A] @ cyan_bold_underline ch (rawLineOf (lines st ! i))
      else formattedLineOf ch (lines st ! i)]"
    by (intro experience_step) simp_all
  show "(console (line_step ch st i)
          = console st @ [[CHR 0x0A] @ cyan_bold_underline ch (rawLineOf (lines st ! i))])
        = (length (lines st ! i) = 1 \<and> isBold (fontName (hd (lines st ! i)))
           \<and> length (rawLineOf (lines st ! i)) < 40)"
    using c formattedLineOf_not_newline[of ch "lines st ! i"]
    by (auto simp: experience_title_def)
  show "console (line_step ch st i) = console st @ [formattedLineOf ch (lines st ! i)]"
    if "\<not> (length (lines st ! i) = 1 \<and> isBold (fontName (hd (lines st ! i)))
           \<and> length (rawLineOf (lines st ! i)) < 40)"
  proof -
    have "\<not> experience_title (lines st ! i)" using that by (simp add: experience_title_def)
    then show ?thesis using c by simp
  qed
next
  assume "raw t1 = ''EXPERIENCE'' \<and> raw t2 = ''Senior Engineer'' \<and> isBold (fontName t2)"
  then show "console (classify ch (page_init [[t1], [t2]] [])) =
          [[CHR 0x0A] @ yellow_bold_underline ch ''EXPERIENCE'',
           [CHR 0x0A] @ cyan_bold_underline ch ''Senior Engineer'']"
    by (intro experience_scenario) simp_all
qed

theorem experience_title_iff_witness:
  "inExperience (after_header experience_lines) \<and> \<not> inEducation (after_header experience_lines)
   \<and> console (line_step ansi (after_header experience_lines) 1)
       = console (after_header experience_lines)
         @ [[CHR 0x0A] @ cyan_bold_underline ansi ''Senior Engineer'']
   \<and> console (classify ansi (page_init experience_lines [])) =
          [[CHR 0x0A] @ yellow_bold_underline ansi ''EXPERIENCE'',
           [CHR 0x0A] @ cyan_bold_underline ansi ''Senior Engineer'']"
proof -
  let ?S = "after_header experience_lines"
  let ?t1 = "plain_item ''EXPERIENCE'' 50 700 ''Arial''"
  let ?t2 = "plain_item ''Senior Engineer'' 50 680 ''Helvetica-Bold''"
  have h: "inExperience ?S \<and> \<not> inEducation ?S \<and> rawLineOf (lines ?S ! 1) \<noteq> []
      \<and> \<not> isSectionHeader (rawLineOf (lines ?S ! 1))"
    by code_simp
  have c: "length (lines ?S ! 1) = 1 \<and> isBold (fontName (hd (lines ?S ! 1)))
           \<and> length (rawLineOf (lines ?S ! 1)) < 40"
    by code_simp
  have r: "rawLineOf (lines ?S ! 1) = ''Senior Engineer''" by code_simp
  have s: "raw ?t1 = ''EXPERIENCE'' \<and> raw ?t2 = ''Senior Engineer'' \<and> isBold (fontName ?t2)"
    by code_simp
  note t = experience_title_iff[of ?S 1 ansi ?t1 ?t2]
  have 1: "console (line_step ansi ?S 1) = console ?S @ [[CHR 0x0A] @ cyan_bold_underline ansi ''Senior Engineer'']"
    using t h c unfolding r by blast
  have 2: "console (classify ansi (page_init [[?t1], [?t2]] [])) =
          [[CHR 0x0A] @ yellow_bold_underline ansi ''EXPERIENCE'',
           [CHR 0x0A] @ cyan_bold_underline ansi ''Senior Engineer'']"
    using t s by blast
  show ?thesis using h 1 2 by (simp add: experience_lines_def)
qed

subsection \<open>Projects\<close>

lemma branch_title_iff:
  "branch_of st i = ProjectTitle \<longleftrightarrow>
     rawLineOf (lines st ! i) \<noteq> [] \<and> \<not> isSectionHeader (rawLineOf (lines st ! i))
     \<and> \<not> inEducation st \<and> \<not> inExperience st \<and> inProjects st
     \<and> isProjectTitle (rawLineOf (lines st ! i)) \<and> int i - lastProjectIndex st > 1"
  by (simp add: branch_of_def Let_def)

lemma title_step:
  "branch_of st i = ProjectTitle \<Longrightarrow>
   lastProjectIndex (line_step ch st i) = int i
   \<and> console (line_step ch st i)
       = console st @ [[], cyan_bold_underline ch (formattedLineOf ch (lines st ! i))]"
  by (simp add: line_step_alt Let_def console_log_def)

lemma title_not_github: "isProjectTitle s \<Longrightarrow> \<not> isGithubLink s"
proof
  assume t: "isProjectTitle s" and g: "isGithubLink s"
  from g obtain pre post where "s = pre @ ''github.com'' @ post"
    by (auto simp: isGithubLink_def includes_str_iff)
  then have "CHR ''g'' \<in> set s" by simp
  then have "titleChar (CHR ''g'')" using t by (auto simp: isProjectTitle_def list_all_iff)
  then show False by (simp add: titleChar_def isUpper_def isDigit_def isSpace_def)
qed

lemma after_title:
  assumes "branch_of st i = ProjectTitle"
  shows "inProjects (line_step ch st i)" "\<not> inEducation (line_step ch st i)"
    "\<not> inExperience (line_step ch st i)" "lastProjectIndex (line_step ch st i) = int i"
    "lines (line_step ch st i) ! Suc i = lines st ! Suc i"
proof -
  have "branch_of st i \<noteq> SectionHeader" using assms by simp
  from flags_line_step[OF this, of ch] assms
  show "inProjects (line_step ch st i)" "\<not> inEducation (line_step ch st i)"
    "\<not> inExperience (line_step ch st i)"
    by (simp_all add: branch_title_iff)
  show "lastProjectIndex (line_step ch st i) = int i" using title_step[OF assms] by simp
  show "lines (line_step ch st i) ! Suc i = lines st ! Suc i" by (simp add: lines_line_step)
qed

lemma second_title_branch:
  assumes "branch_of st i = ProjectTitle" "isProjectTitle (rawLineOf (lines st ! Suc i))"
  shows "branch_of (line_step ch st i) (Suc i) =
     (if isSectionHeader (rawLineOf (lines st ! Suc i)) then SectionHeader
      else if isTechStack (rawLineOf (lines st ! Suc i)) then TechStack
      else if includes_str (toLowerCase (rawLineOf (lines st ! Suc i))) ''verify'' then Verify
      else Default)"
proof -
  have "rawLineOf (lines st ! Suc i) \<noteq> []" using assms(2) by (auto simp: isProjectTitle_def)
  then show ?thesis
    using after_title[OF assms(1), of ch] title_not_github[OF assms(2)]
    by (simp add: branch_of_def Let_def)
qed

text \<open>
  Claim C7, as amended. A line styled as a project title is logged as an empty line
  and its formatted text in the title style, and the line after it is never styled as a
  project title. When that next line matches the title pattern too, it is handled as a
  section header if it starts with a section keyword; otherwise it is logged in the
  gray italic tech-stack style if it is made of letters, commas and white space only and
  is under 100 characters; otherwise it is logged as its formatted text without style,
  followed by an empty line exactly when it does not contain \<open>verify\<close> (in any case) and
  the line after it matches the title pattern.
\<close>

theorem project_title_never_twice_in_a_row:
  "branch_of st i = ProjectTitle \<longrightarrow>
     console (line_step ch st i)
       = console st @ [[], cyan_bold_underline ch (formattedLineOf ch (lines st ! i))]
     \<and> branch_of (line_step ch st i) (Suc i) \<noteq> ProjectTitle
     \<and> (isProjectTitle (rawLineOf (lines st ! Suc i)) \<longrightarrow>
          (if isSectionHeader (rawLineOf (lines st ! Suc i))
           then branch_of (line_step ch st i) (Suc i) = SectionHeader
           else if isTechStack (rawLineOf (lines st ! Suc i))
           then console (line_step ch (line_step ch st i) (Suc i))
                  = console (line_step ch st i)
                    @ [gray_italic ch (formattedLineOf ch (lines st ! Suc i))]
           else console (line_step ch (line_step ch st i) (Suc i))
                  = console (line_step ch st i)
                    @ formattedLineOf ch (lines st ! Suc i)
                      # (if \<not> includes_str (toLowerCase (rawLineOf (lines st ! Suc i))) ''verify''
                            \<and> Suc (Suc i) < length (lines st)
                            \<and> isProjectTitle (rawLineOf (lines st ! Suc (Suc i)))
                         then [[]] else [])))"
proof (intro impI conjI)
  assume t: "branch_of st i = ProjectTitle"
  show "console (line_step ch st i)
       = console st @ [[], cyan_bold_underline ch (formattedLineOf ch (lines st ! i))]"
    using title_step[OF t] by simp
  show "branch_of (line_step ch st i) (Suc i) \<noteq> ProjectTitle"
    using after_title(4)[OF t, of ch] by (simp add: branch_title_iff)
  assume p: "isProjectTitle (rawLineOf (lines st ! Suc i))"
  let ?s = "line_step ch st i"
  note b = second_title_branch[OF t p, of ch]
  note l = after_title(5)[OF t, of ch]
  have l2: "lines ?s ! Suc (Suc i) = lines st ! Suc (Suc i)" by (simp add: lines_line_step)
  have n: "length (lines ?s) = length (lines st)" by (rule length_lines_line_step)
  have q: "inProjects ?s" by (rule after_title(1)[OF t])
  show "if isSectionHeader (rawLineOf (lines st ! Suc i))
           then branch_of ?s (Suc i) = SectionHeader
           else if isTechStack (rawLineOf (lines st ! Suc i))
           then console (line_step ch ?s (Suc i))
                  = console ?s @ [gray_italic ch (formattedLineOf ch (lines st ! Suc i))]
           else console (line_step ch ?s (Suc i))
                  = console ?s
                    @ formattedLineOf ch (lines st ! Suc i)
                      # (if \<not> includes_str (toLowerCase (rawLineOf (lines st ! Suc i))) ''verify''
                            \<and> Suc (Suc i) < length (lines st)
                            \<and> isProjectTitle (rawLineOf (lines st ! Suc (Suc i)))
                         then [[]] else [])"
    using b l l2 n q by (simp add: line_step_alt[of ch ?s "Suc i"] Let_def console_log_def)
qed

theorem project_title_never_twice_in_a_row_witness:
  "branch_of (after_header project_lines2) 1 = ProjectTitle
   \<and> isProjectTitle (rawLineOf (lines (after_header project_lines2) ! 2))
   \<and> console (line_step ansi (after_header project_lines2) 1)
       = console (after_header project_lines2) @ [[], cyan_bold_underline ansi ''ALPHA-1 (X)'']
   \<and> branch_of (line_step ansi (after_header project_lines2) 1) 2 \<noteq> ProjectTitle
   \<and> console (line_step ansi (line_step ansi (after_header project_lines2) 1) 2)
       = console (line_step ansi (after_header project_lines2) 1) @ [''BETA-2: YY'']"
proof -
  let ?S = "after_header project_lines2"
  have b: "branch_of ?S 1 = ProjectTitle" by code_simp
  have p: "isProjectTitle (rawLineOf (lines ?S ! 2))" by code_simp
  have f: "formattedLineOf ansi (lines ?S ! 1) = ''ALPHA-1 (X)''" by code_simp
  have nh: "\<not> isSectionHeader (rawLineOf (lines ?S ! 2))"
    "\<not> isTechStack (rawLineOf (lines ?S ! 2))"
    by code_simp+
  have f2: "formattedLineOf ansi (lines ?S ! 2) = ''BETA-2: YY''" by code_simp
  have len: "length (lines ?S) = 3" by code_simp
  show ?thesis
    using project_title_never_twice_in_a_row[of ?S 1 ansi] b p nh f2 len
    by (simp add: f[simplified] numeral_2_eq_2)
qed

text \<open>
  Claim C7, as stated, fails: of two consecutive lines matching the title pattern, the
  second is logged in the gray italic style of a tech-stack line, not as its formatted
  text as the generic branch logs it.
\<close>

theorem second_title_logged_as_tech_stack:
  "page_lines ansi project_page = project_lines
   \<and> isProjectTitle ''ALPHA BETA'' \<and> isProjectTitle ''GAMMA DELTA''
   \<and> branch_of (after_header project_lines) 1 = ProjectTitle
   \<and> branch_of (line_step ansi (after_header project_lines) 1) 2 = TechStack
   \<and> extractFormattedText ansi [project_page]
       = [[CHR 0x0A] @ yellow_bold_underline ansi ''PROJECTS'',
          [], cyan_bold_underline ansi ''ALPHA BETA'',
          gray_italic ansi ''GAMMA DELTA'']
   \<and> gray_italic ansi ''GAMMA DELTA'' \<noteq> ''GAMMA DELTA''"
  by code_simp

subsection \<open>Lines are never empty\<close>

lemma rawLineOf_nonempty:
  assumes "l \<noteq> []" "list_all good_item l"
  shows "rawLineOf l \<noteq> []"
proof -
  obtain t where t: "t \<in> set l" using assms(1) by (cases l) auto
  then have g: "raw t \<noteq> []" "trim (raw t) = raw t"
    using assms(2) by (auto simp: list_all_iff good_item_def)
  then have "\<not> isSpace (hd (raw t))" using trim_hd[of "raw t"] by simp
  moreover have "hd (raw t) \<in> set (raw t)" using g by simp
  moreover have "set (raw t) \<subseteq> set (join '' '' (map raw l))"
    using t by (intro set_join) simp
  ultimately have "\<exists>c\<in>set (join '' '' (map raw l)). \<not> isSpace c" by blast
  then show ?thesis by (simp add: rawLineOf_def trim_Nil_iff)
qed

lemma make_item_good: "kept it \<Longrightarrow> good_item (make_item ch links it)"
  by (simp add: good_item_def make_item_def kept_def Let_def trim_idem)

lemma glines_nonempty_step:
  "list_all (\<lambda>l. l \<noteq> []) (glines g) \<Longrightarrow>
   list_all (\<lambda>l. l \<noteq> []) (glines (group_item ch links g it))"
  by (simp add: group_item_def close_line_def Let_def)

lemma glines_nonempty_fold:
  "list_all (\<lambda>l. l \<noteq> []) (glines g) \<Longrightarrow>
   list_all (\<lambda>l. l \<noteq> []) (glines (foldl (group_item ch links) g its))"
  by (induction its arbitrary: g) (simp_all add: glines_nonempty_step)

lemma group_lines_nonempty: "list_all (\<lambda>l. l \<noteq> []) (group_lines ch links its)"
proof -
  let ?g = "foldl (group_item ch links) \<lparr> glines = [], currentLine = [], lastY = None \<rparr> its"
  have "list_all (\<lambda>l. l \<noteq> []) (glines ?g)" by (intro glines_nonempty_fold) simp
  then show ?thesis by (simp add: group_lines_def close_line_def)
qed

lemma group_lines_good:
  assumes "l \<in> set (group_lines ch links its)"
  shows "list_all good_item l"
proof -
  have "set l \<subseteq> set (concat (group_lines ch links its))" using assms by auto
  then have "set l \<subseteq> make_item ch links ` set (filter kept its)"
    by (simp add: group_lines_concat)
  then show ?thesis by (auto simp: list_all_iff make_item_good)
qed

text \<open>
  Claim C10. Every line the grouper makes for a page has at least one token, every
  token's raw text is non-empty and trimmed, and so the raw text of every line is
  non-empty; at no line of the page does the classification loop take the branch that
  skips a line with empty raw text.
\<close>

theorem grouped_lines_never_empty:
  "list_all (\<lambda>l. l \<noteq> [] \<and> list_all (\<lambda>t. raw t \<noteq> [] \<and> trim (raw t) = raw t) l
                  \<and> rawLineOf l \<noteq> []) (page_lines ch p)
   \<and> (\<forall>i < length (page_lines ch p).
        branch_of (run_lines ch (page_init (page_lines ch p) con) 0 i) i \<noteq> Skip)"
proof (intro conjI allI impI)
  have g: "l \<noteq> [] \<and> list_all good_item l \<and> rawLineOf l \<noteq> []"
    if "l \<in> set (page_lines ch p)" for l
  proof -
    have 1: "l \<noteq> []"
      using that group_lines_nonempty[of ch "usable_links (annotations p)" "items p"]
      by (auto simp: page_lines_def list_all_iff)
    have 2: "list_all good_item l" using that by (auto simp: page_lines_def intro: group_lines_good)
    show ?thesis using 1 2 rawLineOf_nonempty by blast
  qed
  then show "list_all (\<lambda>l. l \<noteq> [] \<and> list_all (\<lambda>t. raw t \<noteq> [] \<and> trim (raw t) = raw t) l
                  \<and> rawLineOf l \<noteq> []) (page_lines ch p)"
    by (simp add: list_all_iff good_item_def)
  fix i assume i: "i < length (page_lines ch p)"
  let ?s = "run_lines ch (page_init (page_lines ch p) con) 0 i"
  have "lines ?s ! i = page_lines ch p ! i"
    by (simp add: lines_run_later page_init_def)
  moreover have "rawLineOf (page_lines ch p ! i) \<noteq> []" using g i by simp
  ultimately show "branch_of ?s i \<noteq> Skip" by (simp add: branch_of_def Let_def)
qed

theorem grouped_lines_never_empty_witness:
  "page_lines ansi blank_first_page = [[plain_item ''Hello'' 50 700 ''Arial'']]
   \<and> rawLineOf (page_lines ansi blank_first_page ! 0) \<noteq> []
   \<and> branch_of (run_lines ansi (page_init (page_lines ansi blank_first_page) []) 0 0) 0 \<noteq> Skip"
proof -
  have pl: "page_lines ansi blank_first_page = [[plain_item ''Hello'' 50 700 ''Arial'']]"
    by code_simp
  have "0 < length (page_lines ansi blank_first_page)" by (simp add: pl)
  then show ?thesis
    using grouped_lines_never_empty[of ansi blank_first_page "[]"] pl by auto
qed

end
